theory Spec2Isabelle
  imports Complex_Main
begin

section \<open>Values\<close>

text \<open>
  The program is the class \<open>Filler\<close> of \<open>filler.py\<close>: it keeps a copy of a pandas
  DataFrame and fills missing values (\<open>fillnan\<close>) or outliers (\<open>filloutlier_iqr\<close>,
  \<open>filloutlier_sigma\<close>) of the configured columns in place.

  A cell of a numeric column is a float. Floats are idealised as real numbers, with
  \<open>None\<close> for NaN (the missing value); infinities and rounding are not modelled.
  Arithmetic propagates NaN and every comparison with NaN is false, as in IEEE 754.
\<close>

type_synonym cell = "real option"
type_synonym column = "cell list"
type_synonym table = "string \<rightharpoonup> column"
type_synonym rng = "nat \<Rightarrow> real"

datatype error = TypeError | ValueError | KeyError | IndexError

text \<open>The Python values an argument of the class can be; \<open>PyDataFrame a\<close> is a reference
  to the DataFrame object stored at address \<open>a\<close>.\<close>

datatype pyval =
    PyNone
  | PyBool bool
  | PyInt int
  | PyFloat cell
  | PyStr string
  | PyList "string list"
  | PyTuple "string list"
  | PyIndex "string list"
  | PyDataFrame nat

fun is_str :: "pyval \<Rightarrow> bool" where
  "is_str (PyStr s) = True"
| "is_str v = False"

fun is_int :: "pyval \<Rightarrow> bool" where
  "is_int (PyInt i) = True"
| "is_int v = False"

fun is_float :: "pyval \<Rightarrow> bool" where
  "is_float (PyFloat x) = True"
| "is_float v = False"

text \<open>The float a numeric argument stands for when it is stored in a column or used in
  arithmetic with a float.\<close>

fun num_of :: "pyval \<Rightarrow> cell" where
  "num_of (PyInt i) = Some (of_int i)"
| "num_of (PyFloat x) = x"
| "num_of v = None"

definition fsub :: "cell \<Rightarrow> cell \<Rightarrow> cell" where
  "fsub a b = (case a of None \<Rightarrow> None | Some x \<Rightarrow> (case b of None \<Rightarrow> None | Some y \<Rightarrow> Some (x - y)))"

definition fadd :: "cell \<Rightarrow> cell \<Rightarrow> cell" where
  "fadd a b = (case a of None \<Rightarrow> None | Some x \<Rightarrow> (case b of None \<Rightarrow> None | Some y \<Rightarrow> Some (x + y)))"

definition fmul :: "cell \<Rightarrow> cell \<Rightarrow> cell" where
  "fmul a b = (case a of None \<Rightarrow> None | Some x \<Rightarrow> (case b of None \<Rightarrow> None | Some y \<Rightarrow> Some (x * y)))"

definition flt :: "cell \<Rightarrow> cell \<Rightarrow> bool" where
  "flt a b = (case a of None \<Rightarrow> False | Some x \<Rightarrow> (case b of None \<Rightarrow> False | Some y \<Rightarrow> x < y))"

definition fgt :: "cell \<Rightarrow> cell \<Rightarrow> bool" where
  "fgt a b = (case a of None \<Rightarrow> False | Some x \<Rightarrow> (case b of None \<Rightarrow> False | Some y \<Rightarrow> x > y))"

section \<open>The pandas operations the class calls\<close>

text \<open>\<open>Series.isna()\<close>: the mask of the missing entries.\<close>

definition isna :: "column \<Rightarrow> bool list" where
  "isna col = map (\<lambda>x. x = None) col"

text \<open>The non-missing values of a column, in order: what every aggregation
  (\<open>mean\<close>, \<open>median\<close>, \<open>mode\<close>, \<open>std\<close>, \<open>quantile\<close>, \<open>value_counts\<close>) works on,
  since they all skip NaN by default.\<close>

fun present :: "column \<Rightarrow> real list" where
  "present [] = []"
| "present (None # xs) = present xs"
| "present (Some x # xs) = x # present xs"

text \<open>\<open>Series.mean()\<close>; NaN on a column with no value.\<close>

definition mean :: "column \<Rightarrow> cell" where
  "mean col =
     (let xs = present col
      in if xs = [] then None else Some (sum_list xs / real (length xs)))"

text \<open>\<open>Series.median()\<close>: the middle value of the sorted values, or the average of the
  two middle ones.\<close>

definition median :: "column \<Rightarrow> cell" where
  "median col =
     (let s = sort (present col); n = length s
      in if n = 0 then None
         else if odd n then Some (s ! (n div 2))
         else Some ((s ! (n div 2 - 1) + s ! (n div 2)) / 2))"

text \<open>\<open>Series.std()\<close>: the sample standard deviation (\<open>ddof = 1\<close>); NaN with fewer than
  two values.\<close>

definition std :: "column \<Rightarrow> cell" where
  "std col =
     (let xs = present col; n = length xs
      in if n < 2 then None
         else (let m = sum_list xs / real n
               in Some (sqrt (sum_list (map (\<lambda>x. (x - m)\<^sup>2) xs) / real (n - 1)))))"

text \<open>\<open>Series.quantile(q)\<close> with the default linear interpolation: on the sorted values
  \<open>s\<close>, the position is \<open>h = q * (n - 1)\<close> and the result lies between \<open>s[floor h]\<close>
  and the next value.\<close>

definition quantile :: "real \<Rightarrow> column \<Rightarrow> cell" where
  "quantile q col =
     (let s = sort (present col); n = length s
      in if n = 0 then None
         else (let h = q * real (n - 1); lo = nat \<lfloor>h\<rfloor>; hi = min (lo + 1) (n - 1)
               in Some (s ! lo + (h - real lo) * (s ! hi - s ! lo))))"

text \<open>\<open>Series.mode()\<close>: the most frequent values, in ascending order.\<close>

definition mode :: "column \<Rightarrow> real list" where
  "mode col =
     (let xs = present col; top = fold max (map (count_list xs) xs) 0
      in sort (remdups (filter (\<lambda>v. count_list xs v = top) xs)))"

text \<open>\<open>Series.value_counts(normalize=True)\<close>: the distinct values with their relative
  frequencies, most frequent first (values of equal frequency in the order of their
  first occurrence).\<close>

definition value_counts :: "column \<Rightarrow> (real \<times> real) list" where
  "value_counts col =
     (let xs = present col; n = length xs;
          idx = sort_key (\<lambda>v. - int (count_list xs v)) (rev (remdups (rev xs)))
      in map (\<lambda>v. (v, real (count_list xs v) / real n)) idx)"

text \<open>\<open>df.loc[mask, c]\<close>: the entries at the positions of the mask.\<close>

definition loc_get :: "bool list \<Rightarrow> column \<Rightarrow> column" where
  "loc_get msk col = map snd (filter fst (zip msk col))"

text \<open>\<open>df.loc[mask, c] = v\<close> for a scalar \<open>v\<close>: broadcast to the positions of the mask.\<close>

fun loc_set_scalar :: "bool list \<Rightarrow> cell \<Rightarrow> column \<Rightarrow> column" where
  "loc_set_scalar (m # ms) v (x # xs) = (if m then v else x) # loc_set_scalar ms v xs"
| "loc_set_scalar ms v xs = xs"

text \<open>\<open>df.loc[mask, c] = vs\<close> for a sequence: the k-th value goes to the k-th position
  of the mask. The class always passes as many values as the mask has positions.\<close>

fun loc_set_list :: "bool list \<Rightarrow> cell list \<Rightarrow> column \<Rightarrow> column" where
  "loc_set_list (m # ms) vs (x # xs) =
     (if m then (case vs of [] \<Rightarrow> x # loc_set_list ms [] xs
                 | v # vs' \<Rightarrow> v # loc_set_list ms vs' xs)
      else x # loc_set_list ms vs xs)"
| "loc_set_list ms vs xs = xs"

section \<open>random.choices\<close>

text \<open>\<open>itertools.accumulate\<close>: the running sums.\<close>

fun accumulate_from :: "real \<Rightarrow> real list \<Rightarrow> real list" where
  "accumulate_from acc [] = []"
| "accumulate_from acc (x # xs) = (acc + x) # accumulate_from (acc + x) xs"

definition accumulate :: "real list \<Rightarrow> real list" where
  "accumulate ws = accumulate_from 0 ws"

text \<open>\<open>bisect.bisect(a, x, lo, hi)\<close> on a non-decreasing list: the first position of
  \<open>a[lo:hi]\<close> whose element is greater than \<open>x\<close>, or \<open>hi\<close>.\<close>

definition bisect :: "real list \<Rightarrow> real \<Rightarrow> nat \<Rightarrow> nat \<Rightarrow> nat" where
  "bisect a x lo hi = lo + length (takeWhile (\<lambda>y. y \<le> x) (take (hi - lo) (drop lo a)))"

text \<open>\<open>choices(population, weights)\<close> with the default \<open>k = 1\<close>, given the number \<open>r\<close>
  that \<open>random()\<close> returns (\<open>0 \<le> r < 1\<close>): a list of one element. An empty population
  fails on \<open>cum_weights[-1]\<close>.\<close>

definition choices :: "real list \<Rightarrow> real list \<Rightarrow> real \<Rightarrow> error + real list" where
  "choices population weights r =
     (let n = length population; cum_weights = accumulate weights
      in if length cum_weights \<noteq> n then Inl ValueError
         else if cum_weights = [] then Inl IndexError
         else (let total = last cum_weights
               in if total \<le> 0 then Inl ValueError
                  else Inr [population ! bisect cum_weights (r * total) 0 (n - 1)]))"

text \<open>The comprehension \<open>[choices(ratio.index, ratio.values) for _ in range(n)]\<close>, one
  call of \<open>random()\<close> per element: a list of one-element lists.\<close>

fun rdbr_draws :: "real list \<Rightarrow> real list \<Rightarrow> real list \<Rightarrow> error + real list list" where
  "rdbr_draws population weights [] = Inr []"
| "rdbr_draws population weights (r # rs) =
     (case choices population weights r of
        Inl e \<Rightarrow> Inl e
      | Inr v \<Rightarrow>
          (case rdbr_draws population weights rs of
             Inl e \<Rightarrow> Inl e
           | Inr vs \<Rightarrow> Inr (v # vs)))"

text \<open>The n-by-1 list of lists assigned to one column: its only column.\<close>

definition first_col :: "real list list \<Rightarrow> cell list" where
  "first_col rows = map Some (concat (map (take 1) rows))"

section \<open>The loop bodies\<close>

text \<open>
  One pass of the loop of \<open>fillnan\<close> over a column that exists (lines 62 to 80). The
  five \<open>if\<close> statements run one after the other, each on the column as it is by then;
  the mask \<open>nans\<close> is taken once, at the start. \<open>mode()[0]\<close> fails on a column without
  values, \<open>choices\<close> on an empty frequency table. The generator \<open>g\<close> gives the numbers
  that the successive calls of \<open>random()\<close> return; a pass that draws \<open>n\<close> numbers leaves
  the generator advanced by \<open>n\<close>.
\<close>

definition fillnan_col :: "pyval \<Rightarrow> column \<Rightarrow> rng \<Rightarrow> error + column \<times> rng" where
  "fillnan_col method col g =
     (let nans = isna col;
          col1 = (if is_int method \<or> is_float method
                  then loc_set_scalar nans (num_of method) col else col);
          col2 = (if method = PyStr ''mean''
                  then loc_set_scalar nans (mean col1) col1 else col1);
          col3 = (if method = PyStr ''median''
                  then loc_set_scalar nans (median col2) col2 else col2)
      in case (if method = PyStr ''mode''
               then (case mode col3 of
                       [] \<Rightarrow> Inl KeyError
                     | v # vs \<Rightarrow> Inr (loc_set_scalar nans (Some v) col3))
               else Inr col3) of
           Inl e \<Rightarrow> Inl e
         | Inr col4 \<Rightarrow>
             (if method = PyStr ''rdbr''
              then (let ratio = value_counts col4; n = length (filter id nans)
                    in case rdbr_draws (map fst ratio) (map snd ratio) (map g [0..<n]) of
                         Inl e \<Rightarrow> Inl e
                       | Inr rdbr \<Rightarrow>
                           Inr (loc_set_list nans (first_col rdbr) col4, \<lambda>j. g (j + n)))
              else Inr (col4, g)))"

text \<open>
  The part the two outlier operations share word for word (lines 119 to 134 and 172 to
  187): given the mask \<open>outliers\<close>, the statistics are taken over
  \<open>no_outliers = self.data.loc[~outliers, c]\<close>.
\<close>

definition fill_outliers :: "pyval \<Rightarrow> bool list \<Rightarrow> column \<Rightarrow> rng \<Rightarrow> error + column \<times> rng" where
  "fill_outliers method outliers col g =
     (let no_outliers = loc_get (map Not outliers) col;
          col1 = (if is_int method \<or> is_float method
                  then loc_set_scalar outliers (num_of method) col else col);
          col2 = (if method = PyStr ''mean''
                  then loc_set_scalar outliers (mean no_outliers) col1 else col1);
          col3 = (if method = PyStr ''median''
                  then loc_set_scalar outliers (median no_outliers) col2 else col2)
      in if method = PyStr ''rdbr''
         then (let ratio = value_counts no_outliers; n = length (loc_get outliers col3)
               in case rdbr_draws (map fst ratio) (map snd ratio) (map g [0..<n]) of
                    Inl e \<Rightarrow> Inl e
                  | Inr rdbr \<Rightarrow>
                      Inr (loc_set_list outliers (first_col rdbr) col3, \<lambda>j. g (j + n)))
         else Inr (col3, g))"

text \<open>The mask of \<open>filloutlier_iqr\<close> (lines 115 to 118).\<close>

definition iqr_outliers :: "cell \<Rightarrow> column \<Rightarrow> bool list" where
  "iqr_outliers k col =
     (let q1 = quantile (1/4) col; q3 = quantile (3/4) col;
          iqr = fmul k (fsub q3 q1);
          left = fsub q1 iqr; right = fadd q3 iqr
      in map (\<lambda>x. flt x left \<or> fgt x right) col)"

text \<open>The mask of \<open>filloutlier_sigma\<close> (lines 169 to 171).\<close>

definition sigma_outliers :: "cell \<Rightarrow> column \<Rightarrow> bool list" where
  "sigma_outliers k col =
     (let mean' = mean col; sigma = fmul k (std col);
          left = fsub mean' sigma; right = fadd mean' sigma
      in map (\<lambda>x. flt x left \<or> fgt x right) col)"

section \<open>The loops over the columns\<close>

text \<open>
  \<open>for c in self.columns\<close>, on the stored table: \<open>self.data[c]\<close> raises KeyError for a
  column the table does not have. An error ends the loop and leaves the table as the
  earlier passes made it.
\<close>

fun for_columns ::
  "(column \<Rightarrow> rng \<Rightarrow> error + column \<times> rng) \<Rightarrow> string list \<Rightarrow> table \<Rightarrow> rng \<Rightarrow>
     error option \<times> table \<times> rng" where
  "for_columns body [] t g = (None, t, g)"
| "for_columns body (c # cs) t g =
     (case t c of
        None \<Rightarrow> (Some KeyError, t, g)
      | Some col \<Rightarrow>
          (case body col g of
             Inl e \<Rightarrow> (Some e, t, g)
           | Inr (col', g') \<Rightarrow> for_columns body cs (t(c \<mapsto> col')) g'))"

text \<open>The three loops (lines 61 to 80, 114 to 134 and 168 to 187).\<close>

definition fillnan_loop :: "pyval \<Rightarrow> string list \<Rightarrow> table \<Rightarrow> rng \<Rightarrow> error option \<times> table \<times> rng" where
  "fillnan_loop method = for_columns (fillnan_col method)"

definition iqr_loop :: "pyval \<Rightarrow> cell \<Rightarrow> string list \<Rightarrow> table \<Rightarrow> rng \<Rightarrow> error option \<times> table \<times> rng" where
  "iqr_loop method k = for_columns (\<lambda>col. fill_outliers method (iqr_outliers k col) col)"

definition sigma_loop :: "pyval \<Rightarrow> cell \<Rightarrow> string list \<Rightarrow> table \<Rightarrow> rng \<Rightarrow> error option \<times> table \<times> rng" where
  "sigma_loop method k = for_columns (\<lambda>col. fill_outliers method (sigma_outliers k col) col)"

section \<open>The class\<close>

text \<open>
  DataFrames are objects: the world holds the table stored at each address, the next
  free address, and the state of the random generator. An instance of the class holds
  the address of its own table and its column list.
\<close>

record world =
  heap :: "nat \<Rightarrow> table"
  nxt :: nat
  random :: rng

record Filler =
  data :: nat
  columns :: "string list"

text \<open>\<open>__init__\<close>: \<open>data.copy(deep=True)\<close> allocates a new table with the same
  contents.\<close>

definition Filler_init :: "pyval \<Rightarrow> pyval \<Rightarrow> world \<Rightarrow> (error + Filler) \<times> world" where
  "Filler_init data' columns' w =
     (case data' of
        PyDataFrame a \<Rightarrow>
          (case (case columns' of
                   PyIndex cs \<Rightarrow> Some cs | PyList cs \<Rightarrow> Some cs | PyTuple cs \<Rightarrow> Some cs
                 | _ \<Rightarrow> None) of
             None \<Rightarrow> (Inl TypeError, w)
           | Some cs \<Rightarrow>
               (Inr \<lparr>data = nxt w, columns = cs\<rparr>,
                w\<lparr>heap := (heap w)(nxt w := heap w a), nxt := Suc (nxt w)\<rparr>))
      | _ \<Rightarrow> (Inl TypeError, w))"

text \<open>The end of the three methods: the loop has changed the stored table in place, and
  the method returns \<open>self.data\<close> (the reference) unless the loop raised.\<close>

definition finish :: "Filler \<Rightarrow> world \<Rightarrow> error option \<times> table \<times> rng \<Rightarrow> (error + nat) \<times> world" where
  "finish self w res =
     (case res of
        (e, t, g) \<Rightarrow>
          ((case e of Some err \<Rightarrow> Inl err | None \<Rightarrow> Inr (data self)),
           w\<lparr>heap := (heap w)(data self := t), random := g\<rparr>))"

definition fillnan :: "pyval \<Rightarrow> Filler \<Rightarrow> world \<Rightarrow> (error + nat) \<times> world" where
  "fillnan method self w =
     (if \<not> (is_str method \<or> is_int method \<or> is_float method) then (Inl TypeError, w)
      else if is_str method \<and>
              method \<notin> set [PyStr ''mean'', PyStr ''median'', PyStr ''mode'', PyStr ''rdbr'']
      then (Inl ValueError, w)
      else finish self w
             (fillnan_loop method (columns self) (heap w (data self)) (random w)))"

definition filloutlier_iqr :: "pyval \<Rightarrow> pyval \<Rightarrow> Filler \<Rightarrow> world \<Rightarrow> (error + nat) \<times> world" where
  "filloutlier_iqr method k self w =
     (if \<not> (is_str method \<or> is_int method \<or> is_float method) then (Inl TypeError, w)
      else if \<not> (is_int k \<or> is_float k) then (Inl TypeError, w)
      else if is_str method \<and>
              method \<notin> set [PyStr ''mean'', PyStr ''median'', PyStr ''rdbr'']
      then (Inl ValueError, w)
      else finish self w
             (iqr_loop method (num_of k) (columns self) (heap w (data self)) (random w)))"

definition filloutlier_sigma :: "pyval \<Rightarrow> pyval \<Rightarrow> Filler \<Rightarrow> world \<Rightarrow> (error + nat) \<times> world" where
  "filloutlier_sigma method k self w =
     (if \<not> (is_str method \<or> is_int method \<or> is_float method) then (Inl TypeError, w)
      else if \<not> (is_int k \<or> is_float k) then (Inl TypeError, w)
      else if is_str method \<and>
              method \<notin> set [PyStr ''mean'', PyStr ''median'', PyStr ''rdbr'']
      then (Inl ValueError, w)
      else finish self w
             (sigma_loop method (num_of k) (columns self) (heap w (data self)) (random w)))"

text \<open>A caller's sequence of calls on one instance; an exception of one call does not
  keep the caller from making the next.\<close>

datatype call = FillNan pyval | FillIqr pyval pyval | FillSigma pyval pyval

fun run_call :: "call \<Rightarrow> Filler \<Rightarrow> world \<Rightarrow> world" where
  "run_call (FillNan m) self w = snd (fillnan m self w)"
| "run_call (FillIqr m k) self w = snd (filloutlier_iqr m k self w)"
| "run_call (FillSigma m k) self w = snd (filloutlier_sigma m k self w)"

fun run_calls :: "call list \<Rightarrow> Filler \<Rightarrow> world \<Rightarrow> world" where
  "run_calls [] self w = w"
| "run_calls (c # cs) self w = run_calls cs self (run_call c self w)"

section \<open>Example inputs\<close>

text \<open>A table with two columns stored at address 0, an instance whose table is that
  one, and a generator that returns 0, 3/4, 0, 3/4, ...\<close>

definition example_table :: table where
  "example_table = [''a'' \<mapsto> [Some 1, None, Some 2, None], ''b'' \<mapsto> [None, Some 5]]"

definition example_rng :: rng where
  "example_rng = (\<lambda>n. if even n then 0 else 3/4)"

definition example_world :: world where
  "example_world = \<lparr>heap = (\<lambda>a. Map.empty)(0 := example_table), nxt = 1, random = example_rng\<rparr>"

definition example_filler :: Filler where
  "example_filler = \<lparr>data = 0, columns = [''a'']\<rparr>"

section \<open>Properties of the loop over the columns\<close>

lemma for_columns_frame:
  "for_columns body cs t g = (e, t', g') \<Longrightarrow> c \<notin> set cs \<Longrightarrow> t' c = t c"
  by (induction cs arbitrary: t g) (auto split: option.splits sum.splits)

lemma for_columns_absent:
  "for_columns body cs t g = (e, t', g') \<Longrightarrow> t c = None \<Longrightarrow> t' c = None"
proof (induction cs arbitrary: t g)
  case Nil
  then show ?case by simp
next
  case (Cons a cs)
  show ?case
  proof (cases "t a")
    case None
    with Cons.prems show ?thesis by simp
  next
    case (Some cola)
    with Cons.prems(2) have ne: "a \<noteq> c" by auto
    show ?thesis
    proof (cases "body cola g")
      case (Inl err)
      with Some Cons.prems show ?thesis by simp
    next
      case (Inr r)
      obtain col1 g1 where r: "r = (col1, g1)" by (cases r)
      from Inr r Some Cons.prems(1)
      have run: "for_columns body cs (t(a \<mapsto> col1)) g1 = (e, t', g')" by simp
      from ne Cons.prems(2) have "(t(a \<mapsto> col1)) c = None" by simp
      from Cons.IH [OF run this] show ?thesis .
    qed
  qed
qed

lemma for_columns_append:
  "for_columns body (xs @ ys) t g =
     (case for_columns body xs t g of
        (None, t1, g1) \<Rightarrow> for_columns body ys t1 g1
      | (Some e, t1, g1) \<Rightarrow> (Some e, t1, g1))"
  by (induction xs arbitrary: t g) (auto split: option.splits sum.splits prod.splits)

lemma for_columns_invariant:
  assumes step: "\<And>col g col' g'. body col g = Inr (col', g') \<Longrightarrow> R col col'"
    and refl: "\<And>col. R col col"
    and trans: "\<And>a b c. R a b \<Longrightarrow> R b c \<Longrightarrow> R a c"
  shows "for_columns body cs t g = (e, t', g') \<Longrightarrow> t c = Some col \<Longrightarrow>
         \<exists>col'. t' c = Some col' \<and> R col col'"
proof (induction cs arbitrary: t g col)
  case Nil
  then show ?case using refl by auto
next
  case (Cons a cs)
  show ?case
  proof (cases "t a")
    case None
    with Cons.prems show ?thesis using refl by auto
  next
    case (Some cola)
    show ?thesis
    proof (cases "body cola g")
      case (Inl err)
      with Some Cons.prems show ?thesis using refl by auto
    next
      case (Inr r)
      obtain col1 g1 where r: "r = (col1, g1)" by (cases r)
      from Inr r Some Cons.prems(1)
      have run: "for_columns body cs (t(a \<mapsto> col1)) g1 = (e, t', g')" by simp
      show ?thesis
      proof (cases "a = c")
        case True
        with Some Cons.prems(2) have "cola = col" by simp
        with Inr r have "R col col1" using step by blast
        moreover from Cons.IH [OF run, of col1] True
        obtain col' where "t' c = Some col'" "R col1 col'" by auto
        ultimately show ?thesis using trans by blast
      next
        case False
        with Cons.prems(2) have "(t(a \<mapsto> col1)) c = Some col" by simp
        from Cons.IH [OF run this] show ?thesis .
      qed
    qed
  qed
qed

lemma for_columns_once:
  assumes "for_columns body cs t g = (e, t', g')" and "distinct cs" and "t c = Some col"
  shows "(t' c = Some col \<and> (e = None \<longrightarrow> c \<notin> set cs)) \<or>
         (c \<in> set cs \<and> (\<exists>g1 g2 col1. body col g1 = Inr (col1, g2) \<and> t' c = Some col1))"
  using assms
proof (induction cs arbitrary: t g)
  case Nil
  then show ?case by auto
next
  case (Cons a cs)
  show ?case
  proof (cases "t a")
    case None
    with Cons.prems show ?thesis by auto
  next
    case (Some cola)
    show ?thesis
    proof (cases "body cola g")
      case (Inl err)
      with Some Cons.prems show ?thesis by auto
    next
      case (Inr r)
      obtain col1 g1 where r: "r = (col1, g1)" by (cases r)
      from Inr r Some Cons.prems(1)
      have run: "for_columns body cs (t(a \<mapsto> col1)) g1 = (e, t', g')" by simp
      from Cons.prems(2) have d: "distinct cs" and na: "a \<notin> set cs" by auto
      show ?thesis
      proof (cases "a = c")
        case True
        with Some Cons.prems(3) have "cola = col" by simp
        moreover from for_columns_frame [OF run na] True have "t' c = Some col1" by simp
        ultimately show ?thesis using Inr r True by auto
      next
        case False
        with Cons.prems(3) have "(t(a \<mapsto> col1)) c = Some col" by simp
        from Cons.IH [OF run d this] False show ?thesis by auto
      qed
    qed
  qed
qed

lemma for_columns_idem:
  assumes idem: "\<And>col g col1 g1 g2. body col g = Inr (col1, g1) \<Longrightarrow> body col1 g2 = Inr (col1, g2)"
  shows "for_columns body cs t g = (e, t', g') \<Longrightarrow> for_columns body cs t' g' = (e, t', g')"
proof (induction cs arbitrary: t g)
  case Nil
  then show ?case by simp
next
  case (Cons a cs)
  show ?case
  proof (cases "t a")
    case None
    with Cons.prems show ?thesis by auto
  next
    case (Some cola)
    show ?thesis
    proof (cases "body cola g")
      case (Inl err)
      with Some Cons.prems show ?thesis by auto
    next
      case (Inr r)
      obtain col1 g1 where r: "r = (col1, g1)" by (cases r)
      from Inr r Some Cons.prems(1)
      have run: "for_columns body cs (t(a \<mapsto> col1)) g1 = (e, t', g')" by simp
      have st: "\<And>g2. body col1 g2 = Inr (col1, g2)" using idem Inr r by blast
      have "\<exists>col'. t' a = Some col' \<and> (\<lambda>x y. x = col1 \<longrightarrow> y = col1) col1 col'"
      proof (rule for_columns_invariant [where body = body and R = "\<lambda>x y. x = col1 \<longrightarrow> y = col1", OF _ _ _ run])
        show "\<And>col g col' g'. body col g = Inr (col', g') \<Longrightarrow> col = col1 \<longrightarrow> col' = col1"
          using st by auto
      qed auto
      then have ta: "t' a = Some col1" by simp
      then have "t'(a \<mapsto> col1) = t'" by (simp add: fun_upd_idem)
      with ta st Cons.IH [OF run] show ?thesis by simp
    qed
  qed
qed

lemma for_columns_first:
  assumes idem: "\<And>col g col1 g1 g2. body col g = Inr (col1, g1) \<Longrightarrow> body col1 g2 = Inr (col1, g2)"
    and shift: "\<And>col g col1 g1. body col g = Inr (col1, g1) \<Longrightarrow> \<exists>n. g1 = (\<lambda>j. g (j + n))"
  shows "for_columns body cs t g = (None, t', g') \<Longrightarrow> c \<in> set cs \<Longrightarrow> t c = Some col \<Longrightarrow>
         \<exists>k col1 g1. body col (\<lambda>j. g (j + k)) = Inr (col1, g1) \<and> t' c = Some col1"
proof (induction cs arbitrary: t g)
  case Nil
  then show ?case by simp
next
  case (Cons a cs)
  show ?case
  proof (cases "t a")
    case None
    with Cons.prems show ?thesis by auto
  next
    case (Some cola)
    show ?thesis
    proof (cases "body cola g")
      case (Inl err)
      with Some Cons.prems show ?thesis by auto
    next
      case (Inr r)
      obtain col1 g1 where r: "r = (col1, g1)" by (cases r)
      from Inr r Some Cons.prems(1)
      have run: "for_columns body cs (t(a \<mapsto> col1)) g1 = (None, t', g')" by simp
      show ?thesis
      proof (cases "a = c")
        case True
        with Some Cons.prems(3) have eq: "cola = col" by simp
        have st: "\<And>g2. body col1 g2 = Inr (col1, g2)" using idem Inr r by blast
        have "\<exists>col'. t' a = Some col' \<and> (\<lambda>x y. x = col1 \<longrightarrow> y = col1) col1 col'"
        proof (rule for_columns_invariant [where body = body and R = "\<lambda>x y. x = col1 \<longrightarrow> y = col1", OF _ _ _ run])
          show "\<And>col g col' g'. body col g = Inr (col', g') \<Longrightarrow> col = col1 \<longrightarrow> col' = col1"
            using st by auto
        qed auto
        then have "t' c = Some col1" using True by simp
        moreover have "body col (\<lambda>j. g (j + 0)) = Inr (col1, g1)" using Inr r eq by simp
        ultimately show ?thesis by blast
      next
        case False
        with Cons.prems have in_cs: "c \<in> set cs" and tc: "(t(a \<mapsto> col1)) c = Some col" by auto
        from Cons.IH [OF run in_cs tc]
        obtain k col2 g2 where b: "body col (\<lambda>j. g1 (j + k)) = Inr (col2, g2)" and t': "t' c = Some col2"
          by blast
        from shift Inr r obtain n where g1: "g1 = (\<lambda>j. g (j + n))" by blast
        have "(\<lambda>j. g1 (j + k)) = (\<lambda>j. g (j + (k + n)))" by (simp add: g1 add.assoc)
        with b have "body col (\<lambda>j. g (j + (k + n))) = Inr (col2, g2)" by simp
        with t' show ?thesis by blast
      qed
    qed
  qed
qed

lemma loc_set_scalar_length [simp]: "length (loc_set_scalar ms v xs) = length xs"
  by (induction ms v xs rule: loc_set_scalar.induct) auto

lemma loc_set_scalar_map:
  "loc_set_scalar (map P xs) v xs = map (\<lambda>x. if P x then v else x) xs"
  by (induction xs) auto

lemma loc_set_scalar_nth:
  "length ms = length xs \<Longrightarrow> i < length xs \<Longrightarrow>
   loc_set_scalar ms v xs ! i = (if ms ! i then v else xs ! i)"
proof (induction ms v xs arbitrary: i rule: loc_set_scalar.induct)
  case (1 m ms v x xs)
  then show ?case by (cases i) auto
qed auto

lemma loc_set_scalar_isna:
  "loc_set_scalar (isna col) v col = map (\<lambda>x. if x = None then v else x) col"
  by (simp add: isna_def loc_set_scalar_map)

lemma loc_set_scalar_isna_full:
  "None \<notin> set col \<Longrightarrow> loc_set_scalar (isna col) v col = col"
  unfolding loc_set_scalar_isna by (induction col) auto

lemma loc_set_list_length [simp]: "length (loc_set_list ms vs xs) = length xs"
  by (induction ms vs xs rule: loc_set_list.induct) (auto split: list.splits)

lemma loc_set_list_nth:
  "length ms = length xs \<Longrightarrow> i < length xs \<Longrightarrow>
   loc_set_list ms vs xs ! i =
     (if ms ! i \<and> length (filter id (take i ms)) < length vs
      then vs ! length (filter id (take i ms)) else xs ! i)"
proof (induction ms vs xs arbitrary: i rule: loc_set_list.induct)
  case (1 m ms vs x xs)
  then show ?case by (cases i; cases vs) auto
qed auto

lemma isna_length [simp]: "length (isna col) = length col"
  by (simp add: isna_def)

lemma isna_nth: "i < length col \<Longrightarrow> isna col ! i = (col ! i = None)"
  by (simp add: isna_def)

lemma present_None_free: "None \<notin> set col \<Longrightarrow> map Some (present col) = col"
  by (induction col rule: present.induct) auto

lemma set_present: "set (present col) = {x. Some x \<in> set col}"
  by (induction col rule: present.induct) auto

lemma present_map_Some [simp]: "present (map Some xs) = xs"
  by (induction xs) auto

text \<open>
  C6: in each of the three methods an argument \<open>method\<close> that is neither a string nor
  an int nor a float raises TypeError; a string that is not one of the method's tokens
  raises ValueError (in the outlier methods once \<open>k\<close> has passed its check); in the
  outlier methods a \<open>k\<close> that is neither an int nor a float raises TypeError (once
  \<open>method\<close> has passed its type check); and every one of these errors leaves the
  world, and so the stored table, as it was.
\<close>

theorem validation_before_mutation:
  "(\<not> is_str method \<and> \<not> is_int method \<and> \<not> is_float method \<longrightarrow>
      fillnan method self w = (Inl TypeError, w) \<and>
      filloutlier_iqr method k self w = (Inl TypeError, w) \<and>
      filloutlier_sigma method k self w = (Inl TypeError, w)) \<and>
   (s \<notin> {''mean'', ''median'', ''mode'', ''rdbr''} \<longrightarrow>
      fillnan (PyStr s) self w = (Inl ValueError, w)) \<and>
   (s \<notin> {''mean'', ''median'', ''rdbr''} \<and> (is_int k \<or> is_float k) \<longrightarrow>
      filloutlier_iqr (PyStr s) k self w = (Inl ValueError, w) \<and>
      filloutlier_sigma (PyStr s) k self w = (Inl ValueError, w)) \<and>
   ((is_str method \<or> is_int method \<or> is_float method) \<and> \<not> is_int k \<and> \<not> is_float k \<longrightarrow>
      filloutlier_iqr method k self w = (Inl TypeError, w) \<and>
      filloutlier_sigma method k self w = (Inl TypeError, w))"
  by (simp add: fillnan_def filloutlier_iqr_def filloutlier_sigma_def)

theorem validation_before_mutation_witness:
  "fillnan PyNone example_filler example_world = (Inl TypeError, example_world) \<and>
   filloutlier_iqr (PyBool True) (PyFloat (Some (3/2))) example_filler example_world
     = (Inl TypeError, example_world) \<and>
   filloutlier_sigma (PyList [''mean'']) (PyInt 3) example_filler example_world
     = (Inl TypeError, example_world) \<and>
   fillnan (PyStr ''bogus'') example_filler example_world = (Inl ValueError, example_world) \<and>
   filloutlier_iqr (PyStr ''mode'') (PyFloat (Some (3/2))) example_filler example_world
     = (Inl ValueError, example_world) \<and>
   filloutlier_sigma (PyStr ''mode'') (PyInt 3) example_filler example_world
     = (Inl ValueError, example_world) \<and>
   filloutlier_iqr (PyStr ''mean'') (PyStr ''x'') example_filler example_world
     = (Inl TypeError, example_world) \<and>
   filloutlier_sigma (PyInt 0) PyNone example_filler example_world
     = (Inl TypeError, example_world)"
  using validation_before_mutation [of PyNone example_filler example_world "PyFloat (Some (3/2))" "''bogus''"]
    validation_before_mutation [of "PyBool True" example_filler example_world "PyFloat (Some (3/2))" "''mode''"]
    validation_before_mutation [of "PyList [''mean'']" example_filler example_world "PyInt 3" "''mode''"]
    validation_before_mutation [of "PyStr ''mean''" example_filler example_world "PyStr ''x''" "''mode''"]
    validation_before_mutation [of "PyInt 0" example_filler example_world "PyNone" "''mode''"]
  by simp

lemma run_call_heap:
  "b \<noteq> data self \<Longrightarrow> heap (run_call c self w) b = heap w b"
  by (cases c) (auto simp: fillnan_def filloutlier_iqr_def filloutlier_sigma_def finish_def
      split: prod.splits)

lemma run_calls_heap:
  "b \<noteq> data self \<Longrightarrow> heap (run_calls cs self w) b = heap w b"
  by (induction cs arbitrary: w) (auto simp: run_call_heap)

text \<open>
  C7: the constructor stores a copy of the caller's table at a fresh address, so with
  the caller's table an allocated object at address \<open>a\<close>, after construction and any
  sequence of calls on the instance the table at \<open>a\<close> is what it was.
\<close>

theorem caller_table_never_mutated:
  assumes "Filler_init (PyDataFrame a) cols w = (Inr self, w1)" and "a < nxt w"
  shows "data self \<noteq> a \<and> heap w1 (data self) = heap w a \<and>
         heap (run_calls calls self w1) a = heap w a"
proof -
  from assms(1) have d: "data self = nxt w"
    and w1: "w1 = w\<lparr>heap := (heap w)(nxt w := heap w a), nxt := Suc (nxt w)\<rparr>"
    by (auto simp: Filler_init_def split: pyval.splits option.splits)
  from d assms(2) have ne: "a \<noteq> data self" by simp
  from w1 d have copy: "heap w1 (data self) = heap w a" by simp
  from w1 ne d have "heap w1 a = heap w a" by simp
  with run_calls_heap [OF ne] have "heap (run_calls calls self w1) a = heap w a" by simp
  with ne copy show ?thesis by simp
qed

theorem caller_table_never_mutated_witness:
  "Filler_init (PyDataFrame 0) (PyList [''a'']) example_world
     = (Inr \<lparr>data = 1, columns = [''a'']\<rparr>,
        example_world\<lparr>heap := (heap example_world)(1 := example_table), nxt := 2\<rparr>) \<and>
   (0::nat) < nxt example_world \<and>
   heap (run_calls [FillNan (PyInt 0), FillIqr (PyStr ''mean'') (PyInt 1)] \<lparr>data = 1, columns = [''a'']\<rparr>
          (example_world\<lparr>heap := (heap example_world)(1 := example_table), nxt := 2\<rparr>)) 0
     = example_table \<and>
   heap (run_calls [FillNan (PyInt 0)] \<lparr>data = 1, columns = [''a'']\<rparr>
          (example_world\<lparr>heap := (heap example_world)(1 := example_table), nxt := 2\<rparr>)) 1 ''a''
     = Some [Some 1, Some 0, Some 2, Some 0]"
proof -
  have init: "Filler_init (PyDataFrame 0) (PyList [''a'']) example_world
     = (Inr \<lparr>data = 1, columns = [''a'']\<rparr>,
        example_world\<lparr>heap := (heap example_world)(1 := example_table), nxt := 2\<rparr>)"
    by (simp add: Filler_init_def example_world_def)
  have lt: "(0::nat) < nxt example_world" by (simp add: example_world_def)
  have own: "heap (run_calls [FillNan (PyInt 0)] \<lparr>data = 1, columns = [''a'']\<rparr>
          (example_world\<lparr>heap := (heap example_world)(1 := example_table), nxt := 2\<rparr>)) 1 ''a''
     = Some [Some 1, Some 0, Some 2, Some 0]"
    by (simp add: fillnan_def finish_def fillnan_loop_def fillnan_col_def isna_def
        example_world_def example_table_def)
  from caller_table_never_mutated [OF init lt,
      of "[FillNan (PyInt 0), FillIqr (PyStr ''mean'') (PyInt 1)]"] init lt own
  show ?thesis by (simp add: example_world_def)
qed

lemma for_columns_success_dom:
  "for_columns body cs t g = (None, t', g') \<Longrightarrow> c \<in> set cs \<Longrightarrow> \<exists>col. t c = Some col"
proof (induction cs arbitrary: t g)
  case Nil
  then show ?case by simp
next
  case (Cons a cs)
  show ?case
  proof (cases "t a")
    case None
    with Cons.prems show ?thesis by auto
  next
    case (Some cola)
    show ?thesis
    proof (cases "body cola g")
      case (Inl err)
      with Some Cons.prems show ?thesis by auto
    next
      case (Inr r)
      obtain col1 g1 where r: "r = (col1, g1)" by (cases r)
      from Inr r Some Cons.prems(1)
      have run: "for_columns body cs (t(a \<mapsto> col1)) g1 = (None, t', g')" by simp
      show ?thesis
      proof (cases "a = c")
        case True
        with Some show ?thesis by simp
      next
        case False
        with Cons.prems(2) have "c \<in> set cs" by simp
        from Cons.IH [OF run this] False show ?thesis by simp
      qed
    qed
  qed
qed

lemma fillnan_col_num:
  "is_int m \<or> is_float m \<Longrightarrow>
   fillnan_col m col g = Inr (loc_set_scalar (isna col) (num_of m) col, g)"
  by (cases m) (simp_all add: fillnan_col_def)

lemma loc_set_scalar_isna_twice:
  "loc_set_scalar (isna (loc_set_scalar (isna col) v col)) v (loc_set_scalar (isna col) v col)
     = loc_set_scalar (isna col) v col"
  by (simp add: loc_set_scalar_isna)

lemma fillnan_col_num_idem:
  assumes "is_int m \<or> is_float m" and "fillnan_col m col g = Inr (col1, g1)"
  shows "fillnan_col m col1 g2 = Inr (col1, g2)"
proof -
  from assms have "col1 = loc_set_scalar (isna col) (num_of m) col"
    by (simp add: fillnan_col_num)
  with assms(1) show ?thesis
    by (simp add: fillnan_col_num loc_set_scalar_isna_twice)
qed

lemma fillnan_loop_num_idem:
  assumes "is_int m \<or> is_float m" and "fillnan_loop m cs t g = (e, t', g')"
  shows "fillnan_loop m cs t' g' = (e, t', g')"
  using assms(2) unfolding fillnan_loop_def
  by (rule for_columns_idem [rotated]) (rule fillnan_col_num_idem [OF assms(1)])

text \<open>
  C9: a second call of \<open>fillnan(0)\<close> right after the first returns what the first
  returned and leaves the world, and so the stored table, as the first call left it;
  when the first call succeeds, no target column has a missing entry left.
\<close>

theorem fillnan_zero_twice:
  "fillnan (PyInt 0) self (snd (fillnan (PyInt 0) self w)) = fillnan (PyInt 0) self w \<and>
   (fst (fillnan (PyInt 0) self w) = Inr (data self) \<and> c \<in> set (columns self) \<longrightarrow>
      (\<exists>col. heap (snd (fillnan (PyInt 0) self w)) (data self) c = Some col \<and> None \<notin> set col))"
proof -
  obtain e t' g' where run:
    "fillnan_loop (PyInt 0) (columns self) (heap w (data self)) (random w) = (e, t', g')"
    by (cases "fillnan_loop (PyInt 0) (columns self) (heap w (data self)) (random w)") auto
  have again: "fillnan_loop (PyInt 0) (columns self) t' g' = (e, t', g')"
    by (rule fillnan_loop_num_idem [OF _ run]) simp
  have first: "fillnan (PyInt 0) self w =
      ((case e of Some err \<Rightarrow> Inl err | None \<Rightarrow> Inr (data self)),
       w\<lparr>heap := (heap w)(data self := t'), random := g'\<rparr>)"
    by (simp add: fillnan_def finish_def run)
  have second: "fillnan (PyInt 0) self (w\<lparr>heap := (heap w)(data self := t'), random := g'\<rparr>) =
      ((case e of Some err \<Rightarrow> Inl err | None \<Rightarrow> Inr (data self)),
       w\<lparr>heap := (heap w)(data self := t'), random := g'\<rparr>)"
    by (simp add: fillnan_def finish_def again)
  have filled: "\<exists>col. t' c = Some col \<and> None \<notin> set col"
    if ok: "e = None" and c: "c \<in> set (columns self)"
  proof -
    from run ok have run': "for_columns (fillnan_col (PyInt 0)) (columns self)
        (heap w (data self)) (random w) = (None, t', g')"
      by (simp add: fillnan_loop_def)
    from for_columns_success_dom [OF run' c] obtain col where col: "heap w (data self) c = Some col"
      by blast
    have "\<exists>k col1 g1. fillnan_col (PyInt 0) col (\<lambda>j. random w (j + k)) = Inr (col1, g1) \<and> t' c = Some col1"
    proof (rule for_columns_first [OF _ _ run' c col])
      show "\<And>col g col1 g1 g2. fillnan_col (PyInt 0) col g = Inr (col1, g1) \<Longrightarrow>
          fillnan_col (PyInt 0) col1 g2 = Inr (col1, g2)"
        by (erule fillnan_col_num_idem [rotated]) simp
      show "\<And>col g col1 g1. fillnan_col (PyInt 0) col g = Inr (col1, g1) \<Longrightarrow>
          \<exists>n. g1 = (\<lambda>j. g (j + n))"
        by (rule exI [of _ 0]) (simp add: fillnan_col_num)
    qed
    then obtain col1 where "t' c = Some col1"
      and "col1 = loc_set_scalar (isna col) (Some 0) col"
      by (auto simp: fillnan_col_num)
    then show ?thesis by (auto simp: loc_set_scalar_isna)
  qed
  show ?thesis
    using first second filled by (auto split: option.splits)
qed

theorem fillnan_zero_twice_witness:
  "fst (fillnan (PyInt 0) example_filler example_world) = Inr (data example_filler) \<and>
   ''a'' \<in> set (columns example_filler) \<and>
   heap (snd (fillnan (PyInt 0) example_filler example_world)) (data example_filler) ''a''
     = Some [Some 1, Some 0, Some 2, Some 0] \<and>
   fillnan (PyInt 0) example_filler (snd (fillnan (PyInt 0) example_filler example_world))
     = fillnan (PyInt 0) example_filler example_world"
proof -
  have a: "fst (fillnan (PyInt 0) example_filler example_world) = Inr (data example_filler)"
    by (simp add: fillnan_def finish_def fillnan_loop_def fillnan_col_def isna_def
        example_world_def example_table_def example_filler_def)
  have b: "''a'' \<in> set (columns example_filler)" by (simp add: example_filler_def)
  have c: "heap (snd (fillnan (PyInt 0) example_filler example_world)) (data example_filler) ''a''
     = Some [Some 1, Some 0, Some 2, Some 0]"
    by (simp add: fillnan_def finish_def fillnan_loop_def fillnan_col_def isna_def
        example_world_def example_table_def example_filler_def)
  from fillnan_zero_twice [of example_filler example_world "''a''"] a b c
  show ?thesis by simp
qed

lemma fillnan_col_mean:
  "fillnan_col (PyStr ''mean'') col g = Inr (loc_set_scalar (isna col) (mean col) col, g)"
  by (simp add: fillnan_col_def)

lemma fillnan_col_median:
  "fillnan_col (PyStr ''median'') col g = Inr (loc_set_scalar (isna col) (median col) col, g)"
  by (simp add: fillnan_col_def)

lemma fillnan_col_mode:
  "fillnan_col (PyStr ''mode'') col g =
     (case mode col of [] \<Rightarrow> Inl KeyError
      | v # vs \<Rightarrow> Inr (loc_set_scalar (isna col) (Some v) col, g))"
  by (simp add: fillnan_col_def split: list.splits)

lemma fillnan_col_rdbr:
  "fillnan_col (PyStr ''rdbr'') col g =
     (case rdbr_draws (map fst (value_counts col)) (map snd (value_counts col))
             (map g [0..<length (filter id (isna col))]) of
        Inl e \<Rightarrow> Inl e
      | Inr rdbr \<Rightarrow> Inr (loc_set_list (isna col) (first_col rdbr) col,
                          \<lambda>j. g (j + length (filter id (isna col)))))"
  by (simp add: fillnan_col_def Let_def)

lemma fillnan_col_other:
  "\<not> is_int m \<Longrightarrow> \<not> is_float m \<Longrightarrow>
   m \<notin> {PyStr ''mean'', PyStr ''median'', PyStr ''mode'', PyStr ''rdbr''} \<Longrightarrow>
   fillnan_col m col g = Inr (col, g)"
  by (simp add: fillnan_col_def)

lemma mean_None: "mean col = None \<longleftrightarrow> present col = []"
  by (simp add: mean_def Let_def)

lemma sort_Nil_iff: "sort xs = [] \<longleftrightarrow> xs = []"
  by (metis length_sort length_0_conv)

lemma median_None: "median col = None \<longleftrightarrow> present col = []"
  by (simp add: median_def Let_def sort_Nil_iff del: not_None_eq)

lemma present_Nil: "present col = [] \<longleftrightarrow> (\<forall>x \<in> set col. x = None)"
  by (induction col rule: present.induct) auto

lemma fill_None: "map (\<lambda>x. if x = None then None else x) col = col"
  by (induction col) auto

lemma fill_full: "v \<noteq> None \<Longrightarrow> None \<notin> set (map (\<lambda>x. if x = None then v else x) col)"
  by (induction col) auto

lemma fill_stable:
  assumes "v = None \<longrightarrow> present col = []" and "present col = [] \<longrightarrow> v' = None"
  shows "loc_set_scalar (isna (loc_set_scalar (isna col) v col)) v' (loc_set_scalar (isna col) v col)
         = loc_set_scalar (isna col) v col"
proof (cases "v = None")
  case True
  with assms have "v' = None" by simp
  with True show ?thesis by (simp add: loc_set_scalar_isna fill_None)
next
  case False
  have "None \<notin> set (loc_set_scalar (isna col) v col)"
    unfolding loc_set_scalar_isna by (rule fill_full [OF False])
  then show ?thesis by (rule loc_set_scalar_isna_full)
qed

lemma fold_max_ge_init: "(a::nat) \<le> fold max ys a"
proof (induction ys arbitrary: a)
  case Nil
  show ?case by simp
next
  case (Cons y ys)
  have "a \<le> max y a" by simp
  also have "max y a \<le> fold max ys (max y a)" by (rule Cons.IH)
  finally show ?case by simp
qed

lemma fold_max_ge_elem: "y \<in> set ys \<Longrightarrow> (y::nat) \<le> fold max ys a"
proof (induction ys arbitrary: a)
  case Nil
  then show ?case by simp
next
  case (Cons z zs)
  show ?case
  proof (cases "y = z")
    case True
    have "y \<le> max z a" using True by simp
    also have "max z a \<le> fold max zs (max z a)" by (rule fold_max_ge_init)
    finally show ?thesis by simp
  next
    case False
    with Cons.prems have "y \<in> set zs" by simp
    from Cons.IH [OF this, of "max z a"] show ?thesis by simp
  qed
qed

lemma fold_max_in: "fold max ys (a::nat) = a \<or> fold max ys a \<in> set ys"
proof (induction ys arbitrary: a)
  case Nil
  show ?case by simp
next
  case (Cons z zs)
  from Cons.IH [of "max z a"]
  have "fold max zs (max z a) = max z a \<or> fold max zs (max z a) \<in> set zs" .
  moreover have "max z a = z \<or> max z a = a" by (simp add: max_def)
  ultimately show ?case by (simp only: fold_simps list.set insert_iff comp_apply) metis
qed

lemma count_list_pos: "x \<in> set xs \<Longrightarrow> 0 < count_list xs x"
  by (metis count_list_0_iff gr0I)

lemma fold_max_count_attained:
  assumes "xs \<noteq> []"
  shows "\<exists>v \<in> set xs. count_list xs v = fold max (map (count_list xs) xs) 0"
proof -
  from assms obtain x where x: "x \<in> set xs" by (cases xs) auto
  then have "count_list xs x \<in> set (map (count_list xs) xs)" by simp
  then have "count_list xs x \<le> fold max (map (count_list xs) xs) 0"
    by (rule fold_max_ge_elem)
  with count_list_pos [OF x] have pos: "fold max (map (count_list xs) xs) 0 \<noteq> 0"
    by linarith
  with fold_max_in [of "map (count_list xs) xs" 0]
  have "fold max (map (count_list xs) xs) 0 \<in> set (map (count_list xs) xs)" by blast
  then obtain v where "v \<in> set xs" "fold max (map (count_list xs) xs) 0 = count_list xs v"
    by (auto simp only: set_map image_iff)
  then show ?thesis by metis
qed

lemma set_mode:
  "set (mode col) = {v \<in> set (present col).
      count_list (present col) v = fold max (map (count_list (present col)) (present col)) 0}"
  by (simp add: mode_def Let_def)

lemma mode_Nil: "mode col = [] \<longleftrightarrow> present col = []"
proof
  assume m: "mode col = []"
  show "present col = []"
  proof (rule ccontr)
    assume ne: "present col \<noteq> []"
    from fold_max_count_attained [OF ne] have "set (mode col) \<noteq> {}"
      unfolding set_mode by blast
    with m show False by simp
  qed
next
  assume "present col = []"
  then show "mode col = []" by (simp add: mode_def)
qed

lemma bisect_le: "bisect a x 0 hi \<le> hi"
proof -
  have "length (takeWhile (\<lambda>y. y \<le> x) (take hi a)) \<le> length (take hi a)"
    by (rule length_takeWhile_le)
  then show ?thesis by (simp add: bisect_def)
qed

lemma accumulate_from_length [simp]: "length (accumulate_from acc ws) = length ws"
  by (induction ws arbitrary: acc) auto

lemma choices_Inr:
  assumes "choices population weights r = Inr x"
  shows "\<exists>v \<in> set population. x = [v]"
proof -
  let ?n = "length population"
  let ?cum = "accumulate weights"
  from assms have len: "length ?cum = ?n" and ne: "?cum \<noteq> []"
    and x: "x = [population ! bisect ?cum (r * last ?cum) 0 (?n - 1)]"
    by (auto simp: choices_def Let_def split: if_splits)
  from len ne have pos: "0 < ?n" by (cases population) auto
  have "bisect ?cum (r * last ?cum) 0 (?n - 1) \<le> ?n - 1" by (rule bisect_le)
  with pos have "bisect ?cum (r * last ?cum) 0 (?n - 1) < ?n" by linarith
  then have "population ! bisect ?cum (r * last ?cum) 0 (?n - 1) \<in> set population"
    by (rule nth_mem)
  with x show ?thesis by blast
qed

lemma rdbr_draws_Inr:
  "rdbr_draws population weights rs = Inr rows \<Longrightarrow>
   \<exists>vs. rows = map (\<lambda>v. [v]) vs \<and> length vs = length rs \<and> set vs \<subseteq> set population \<and>
        (\<forall>j < length rs. choices population weights (rs ! j) = Inr [vs ! j])"
proof (induction rs arbitrary: rows)
  case Nil
  then show ?case by simp
next
  case (Cons r rs)
  from Cons.prems obtain x rows' where x: "choices population weights r = Inr x"
    and rest: "rdbr_draws population weights rs = Inr rows'" and rows: "rows = x # rows'"
    by (auto split: sum.splits)
  from choices_Inr [OF x] obtain v where v: "v \<in> set population" "x = [v]" by blast
  from Cons.IH [OF rest] obtain vs where vs: "rows' = map (\<lambda>v. [v]) vs"
    "length vs = length rs" "set vs \<subseteq> set population"
    "\<forall>j < length rs. choices population weights (rs ! j) = Inr [vs ! j]" by blast
  have "\<forall>j < length (r # rs). choices population weights ((r # rs) ! j) = Inr [(v # vs) ! j]"
  proof (intro allI impI)
    fix j assume "j < length (r # rs)"
    then show "choices population weights ((r # rs) ! j) = Inr [(v # vs) ! j]"
      using x v(2) vs(4) by (cases j) auto
  qed
  with rows v vs(1,2,3) have "rows = map (\<lambda>v. [v]) (v # vs) \<and> length (v # vs) = length (r # rs) \<and>
      set (v # vs) \<subseteq> set population \<and>
      (\<forall>j < length (r # rs). choices population weights ((r # rs) ! j) = Inr [(v # vs) ! j])"
    by simp
  then show ?case by blast
qed

lemma first_col_singletons: "first_col (map (\<lambda>v. [v]) vs) = map Some vs"
  by (induction vs) (auto simp: first_col_def)

lemma value_counts_index_set: "set (map fst (value_counts col)) = set (present col)"
  by (simp add: value_counts_def Let_def comp_def)

lemma value_counts_index_distinct: "distinct (map fst (value_counts col))"
  by (simp add: value_counts_def Let_def comp_def)

lemma loc_set_list_Nil [simp]: "loc_set_list ms [] xs = xs"
  by (induction ms "[] :: cell list" xs rule: loc_set_list.induct) auto

lemma isna_Nil [simp]: "isna [] = []"
  by (simp add: isna_def)

lemma isna_Cons_None [simp]: "isna (None # col) = True # isna col"
  by (simp add: isna_def)

lemma isna_Cons_Some [simp]: "isna (Some y # col) = False # isna col"
  by (simp add: isna_def)

lemma isna_no_missing: "None \<notin> set col \<Longrightarrow> filter id (isna col) = []"
proof (induction col)
  case Nil
  show ?case by simp
next
  case (Cons x col)
  then show ?case by (cases x) (simp_all add: id_def)
qed

lemma loc_set_list_isna_full:
  "length (filter id (isna col)) \<le> length vs \<Longrightarrow> None \<notin> set vs \<Longrightarrow>
   None \<notin> set (loc_set_list (isna col) vs col)"
proof (induction col arbitrary: vs)
  case Nil
  then show ?case by simp
next
  case (Cons x col)
  show ?case
  proof (cases x)
    case None
    with Cons.prems(1) obtain v vs' where vs: "vs = v # vs'"
      by (cases vs) (simp_all add: id_def)
    with None Cons.prems have le: "length (filter id (isna col)) \<le> length vs'"
      and nn: "None \<notin> set vs'" and v: "None \<noteq> v"
      by (simp_all add: id_def)
    from Cons.IH [OF le nn] have "None \<notin> set (loc_set_list (isna col) vs' col)" .
    with v None vs show ?thesis by simp
  next
    case (Some y)
    with Cons.prems(1) have "length (filter id (isna col)) \<le> length vs"
      by (simp add: id_def)
    from Cons.IH [OF this Cons.prems(2)] Some show ?thesis by simp
  qed
qed

lemma fillnan_col_mean_idem:
  "fillnan_col (PyStr ''mean'') (loc_set_scalar (isna col) (mean col) col) g2
     = Inr (loc_set_scalar (isna col) (mean col) col, g2)"
proof -
  have "present col = [] \<longrightarrow> mean (loc_set_scalar (isna col) (mean col) col) = None"
  proof
    assume e: "present col = []"
    then have "mean col = None" by (simp add: mean_None)
    then have "loc_set_scalar (isna col) (mean col) col = col"
      by (simp add: loc_set_scalar_isna fill_None)
    with e show "mean (loc_set_scalar (isna col) (mean col) col) = None"
      by (simp add: mean_None)
  qed
  moreover have "mean col = None \<longrightarrow> present col = []" by (simp add: mean_None)
  ultimately show ?thesis
    by (simp only: fillnan_col_mean fill_stable)
qed

lemma fillnan_col_median_idem:
  "fillnan_col (PyStr ''median'') (loc_set_scalar (isna col) (median col) col) g2
     = Inr (loc_set_scalar (isna col) (median col) col, g2)"
proof -
  have "present col = [] \<longrightarrow> median (loc_set_scalar (isna col) (median col) col) = None"
  proof
    assume e: "present col = []"
    then have "median col = None" by (simp add: median_None)
    then have "loc_set_scalar (isna col) (median col) col = col"
      by (simp add: loc_set_scalar_isna fill_None)
    with e show "median (loc_set_scalar (isna col) (median col) col) = None"
      by (simp add: median_None)
  qed
  moreover have "median col = None \<longrightarrow> present col = []" by (simp add: median_None)
  ultimately show ?thesis
    by (simp only: fillnan_col_median fill_stable)
qed

lemma fill_Some_present:
  "present col \<noteq> [] \<Longrightarrow> present (map (\<lambda>x. if x = None then Some v else x) col) \<noteq> []"
  by (induction col rule: present.induct) auto

lemma fillnan_col_mode_idem:
  assumes "mode col = v # vs"
  shows "fillnan_col (PyStr ''mode'') (loc_set_scalar (isna col) (Some v) col) g2
     = Inr (loc_set_scalar (isna col) (Some v) col, g2)"
proof -
  let ?col1 = "loc_set_scalar (isna col) (Some v) col"
  from assms have "present col \<noteq> []" using mode_Nil [of col] by auto
  then have "present ?col1 \<noteq> []" by (simp add: loc_set_scalar_isna fill_Some_present)
  then have "mode ?col1 \<noteq> []" by (simp add: mode_Nil)
  then obtain v1 vs1 where m1: "mode ?col1 = v1 # vs1" by (cases "mode ?col1") auto
  have "None \<notin> set ?col1" unfolding loc_set_scalar_isna by (rule fill_full) simp
  then have "loc_set_scalar (isna ?col1) (Some v1) ?col1 = ?col1"
    by (rule loc_set_scalar_isna_full)
  with m1 show ?thesis by (simp add: fillnan_col_mode)
qed

lemma fillnan_col_rdbr_Inr:
  assumes "fillnan_col (PyStr ''rdbr'') col g = Inr (col1, g1)"
  shows "\<exists>vs. length vs = length (filter id (isna col)) \<and>
           set vs \<subseteq> set (present col) \<and>
           (\<forall>j < length vs. choices (map fst (value_counts col)) (map snd (value_counts col)) (g j)
               = Inr [vs ! j]) \<and>
           col1 = loc_set_list (isna col) (map Some vs) col \<and>
           g1 = (\<lambda>j. g (j + length vs))"
proof -
  let ?n = "length (filter id (isna col))"
  from assms obtain rdbr where d: "rdbr_draws (map fst (value_counts col))
      (map snd (value_counts col)) (map g [0..<?n]) = Inr rdbr"
    and c: "col1 = loc_set_list (isna col) (first_col rdbr) col"
    and g: "g1 = (\<lambda>j. g (j + ?n))"
    by (auto simp: fillnan_col_rdbr split: sum.splits)
  from rdbr_draws_Inr [OF d] obtain vs where vs: "rdbr = map (\<lambda>v. [v]) vs"
    "length vs = ?n" "set vs \<subseteq> set (map fst (value_counts col))"
    "\<forall>j < ?n. choices (map fst (value_counts col)) (map snd (value_counts col))
        (map g [0..<?n] ! j) = Inr [vs ! j]"
    by auto
  from vs(4) vs(2) have "\<forall>j < length vs. choices (map fst (value_counts col))
      (map snd (value_counts col)) (g j) = Inr [vs ! j]" by simp
  moreover from vs(3) have "set vs \<subseteq> set (present col)"
    by (simp only: value_counts_index_set)
  moreover from c vs(1) have "col1 = loc_set_list (isna col) (map Some vs) col"
    by (simp only: first_col_singletons)
  ultimately show ?thesis using vs(2) g by auto
qed

lemma fillnan_col_rdbr_idem:
  assumes "fillnan_col (PyStr ''rdbr'') col g = Inr (col1, g1)"
  shows "fillnan_col (PyStr ''rdbr'') col1 g2 = Inr (col1, g2)"
proof -
  from fillnan_col_rdbr_Inr [OF assms] obtain vs where
    len: "length vs = length (filter id (isna col))"
    and c: "col1 = loc_set_list (isna col) (map Some vs) col" by blast
  have "None \<notin> set col1" unfolding c
    by (rule loc_set_list_isna_full) (auto simp: len)
  then have "filter id (isna col1) = []" by (rule isna_no_missing)
  then show ?thesis by (simp add: fillnan_col_rdbr first_col_def)
qed

lemma fillnan_col_idem:
  assumes "fillnan_col m col g = Inr (col1, g1)"
  shows "fillnan_col m col1 g2 = Inr (col1, g2)"
proof -
  consider (num) "is_int m \<or> is_float m"
    | (mean) "m = PyStr ''mean''" | (median) "m = PyStr ''median''"
    | (mode) "m = PyStr ''mode''" | (rdbr) "m = PyStr ''rdbr''"
    | (other) "\<not> is_int m" "\<not> is_float m"
        "m \<notin> {PyStr ''mean'', PyStr ''median'', PyStr ''mode'', PyStr ''rdbr''}"
    by blast
  then show ?thesis
  proof cases
    case num
    from fillnan_col_num_idem [OF num assms] show ?thesis .
  next
    case mean
    with assms have "col1 = loc_set_scalar (isna col) (mean col) col"
      by (simp add: fillnan_col_mean)
    with mean show ?thesis by (simp only: fillnan_col_mean_idem)
  next
    case median
    with assms have "col1 = loc_set_scalar (isna col) (median col) col"
      by (simp add: fillnan_col_median)
    with median show ?thesis by (simp only: fillnan_col_median_idem)
  next
    case mode
    with assms obtain v vs where "mode col = v # vs"
      and "col1 = loc_set_scalar (isna col) (Some v) col"
      by (auto simp: fillnan_col_mode split: list.splits)
    with mode show ?thesis by (simp only: fillnan_col_mode_idem)
  next
    case rdbr
    with assms show ?thesis by (simp only: fillnan_col_rdbr_idem)
  next
    case other
    with assms have "col1 = col" by (simp add: fillnan_col_other)
    with other show ?thesis by (simp add: fillnan_col_other)
  qed
qed

lemma fillnan_col_shift:
  assumes "fillnan_col m col g = Inr (col1, g1)"
  shows "\<exists>n. g1 = (\<lambda>j. g (j + n))"
proof (cases "m = PyStr ''rdbr''")
  case True
  with fillnan_col_rdbr_Inr [of col g col1 g1] assms show ?thesis by blast
next
  case False
  with assms have "g1 = g"
    by (auto simp: fillnan_col_def Let_def split: if_splits list.splits sum.splits)
  then have "g1 = (\<lambda>j. g (j + 0))" by simp
  then show ?thesis by blast
qed

lemma fillnan_success:
  assumes "fillnan m self w = (Inr a, w')"
  shows "for_columns (fillnan_col m) (columns self) (heap w (data self)) (random w)
           = (None, heap w' (data self), random w')"
proof -
  obtain e t g where run: "fillnan_loop m (columns self) (heap w (data self)) (random w) = (e, t, g)"
    by (cases "fillnan_loop m (columns self) (heap w (data self)) (random w)") auto
  from assms have fin: "finish self w (e, t, g) = (Inr a, w')"
    by (simp add: fillnan_def run split: if_splits)
  then have "e = None" and "w' = w\<lparr>heap := (heap w)(data self := t), random := g\<rparr>"
    by (auto simp: finish_def split: option.splits)
  with run show ?thesis by (simp add: fillnan_loop_def)
qed

lemma fillnan_first_pass:
  assumes "fillnan m self w = (Inr a, w')" and "c \<in> set (columns self)"
    and "heap w (data self) c = Some col"
  shows "\<exists>k col1 g1. fillnan_col m col (\<lambda>j. random w (j + k)) = Inr (col1, g1) \<and>
           heap w' (data self) c = Some col1"
  by (rule for_columns_first [OF fillnan_col_idem fillnan_col_shift
        fillnan_success [OF assms(1)] assms(2,3)])

end
